theory Spec2Isabelle
  imports
    Complex_Main
    "HOL-Library.Char_ord"
    "HOL-Library.List_Lexorder"
    "HOL-Library.Option_ord"
    "HOL-Library.Multiset"
begin

section \<open>The invoice store of \<^verbatim>\<open>invoice_manager.py\<close>\<close>

text \<open>
  The class \<^verbatim>\<open>InvoiceDB\<close> keeps two SQLite tables: \<^verbatim>\<open>invoices\<close> (columns
  \<^verbatim>\<open>id INTEGER PRIMARY KEY, invoice_no TEXT UNIQUE, date, type, customer, items TEXT,
  total REAL, notes TEXT\<close>) and \<^verbatim>\<open>meta\<close> (\<^verbatim>\<open>k TEXT PRIMARY KEY, v TEXT\<close>). Every
  method runs one or two SQL statements on them. The embedding makes the two tables the
  state, passes it explicitly, and writes each statement out as the function on tables
  that SQL defines for it.

  A row of \<^verbatim>\<open>invoices\<close> is a record. The column \<^verbatim>\<open>id\<close> is the field \<open>inv_id\<close>,
  \<^verbatim>\<open>type\<close> is \<open>itype\<close> (the name of the Python argument), \<^verbatim>\<open>total\<close> is
  \<open>total_amount\<close> and \<^verbatim>\<open>notes\<close> is \<open>notes_text\<close>; the other fields carry the column
  names. Text is a \<open>string\<close>; the callers of the class hand over \<^verbatim>\<open>str\<close> values for every text column, so SQL's NULL
  does not occur in a column. The total is a number that the store only keeps, copies and
  hands back: no operation computes with it.

  The table is the list of its rows in the order SQLite scans it, which is the order of
  insertion. Limits of the implementations (SQLite's largest rowid \<open>2^63 - 1\<close>, the
  length of a LIKE pattern and the size of a text; the longest numeral Python's
  \<^verbatim>\<open>int\<close> reads and the longest field \<^verbatim>\<open>csv.reader\<close> accepts) are not part of the
  model, and text is ASCII text.
\<close>

type_synonym amount = real

record invoice =
  inv_id :: int
  invoice_no :: string
  date :: string
  itype :: string
  customer :: string
  items :: string
  total_amount :: amount
  notes_text :: string

record db =
  invoices :: "invoice list"
  meta :: "string \<rightharpoonup> string"

datatype error = IntegrityError | TypeError | ValueError

text \<open>
  \<^verbatim>\<open>_create_tables\<close>: both \<^verbatim>\<open>CREATE TABLE IF NOT EXISTS\<close> leave existing tables as
  they are, and \<^verbatim>\<open>INSERT OR IGNORE INTO meta (k,v) VALUES ('last_invoice', '0')\<close> adds the
  counter row only when the key is not there yet.
\<close>

definition create_tables :: "db \<Rightarrow> db" where
  "create_tables d =
     (case meta d ''last_invoice'' of
        None \<Rightarrow> d\<lparr>meta := (meta d)(''last_invoice'' \<mapsto> ''0'')\<rparr>
      | Some _ \<Rightarrow> d)"

definition new_db :: db where
  "new_db = create_tables \<lparr>invoices = [], meta = Map.empty\<rparr>"

subsection \<open>Insert, update, delete, get\<close>

text \<open>
  The rowid SQLite gives to a row inserted without an \<^verbatim>\<open>id\<close>: one more than the
  largest rowid in the table, and 1 in an empty table.
\<close>

definition new_rowid :: "invoice list \<Rightarrow> int" where
  "new_rowid rows =
     (case rows of [] \<Rightarrow> 1 | r # rs \<Rightarrow> fold max (map inv_id rs) (inv_id r) + 1)"

text \<open>
  \<^verbatim>\<open>add_invoice\<close>: the \<^verbatim>\<open>INSERT\<close> raises \<^verbatim>\<open>sqlite3.IntegrityError\<close> when the
  \<^verbatim>\<open>UNIQUE\<close> column \<^verbatim>\<open>invoice_no\<close> already holds the value (compared byte by byte, the
  BINARY collation) and then changes nothing; otherwise the row is appended and
  \<^verbatim>\<open>lastrowid\<close> is returned. The result pairs the outcome with the state the call leaves.
\<close>

definition add_invoice ::
  "string \<Rightarrow> string \<Rightarrow> string \<Rightarrow> string \<Rightarrow> string \<Rightarrow> amount \<Rightarrow> string \<Rightarrow> db
     \<Rightarrow> (error + int) \<times> db" where
  "add_invoice no dt ty cust items_text tot nts d =
     (if list_ex (\<lambda>r. invoice_no r = no) (invoices d) then (Inl IntegrityError, d)
      else
        let i = new_rowid (invoices d);
            row = \<lparr>inv_id = i, invoice_no = no, date = dt, itype = ty, customer = cust,
                   items = items_text, total_amount = tot, notes_text = nts\<rparr>
        in (Inr i, d\<lparr>invoices := invoices d @ [row]\<rparr>))"

text \<open>
  \<^verbatim>\<open>update_invoice\<close>: \<^verbatim>\<open>UPDATE invoices SET ... WHERE id=?\<close> rewrites the rows with
  that id, keeping the id. It raises \<^verbatim>\<open>IntegrityError\<close>, and changes nothing, when a
  row is rewritten and another row already holds the new \<^verbatim>\<open>invoice_no\<close>. When no row
  has the id, nothing is rewritten and nothing is checked.
\<close>

definition update_invoice ::
  "int \<Rightarrow> string \<Rightarrow> string \<Rightarrow> string \<Rightarrow> string \<Rightarrow> string \<Rightarrow> amount \<Rightarrow> string \<Rightarrow> db
     \<Rightarrow> (error + unit) \<times> db" where
  "update_invoice i no dt ty cust items_text tot nts d =
     (if list_ex (\<lambda>r. inv_id r = i) (invoices d)
         \<and> list_ex (\<lambda>r. inv_id r \<noteq> i \<and> invoice_no r = no) (invoices d)
      then (Inl IntegrityError, d)
      else
        (Inr (),
         d\<lparr>invoices :=
             map (\<lambda>r. if inv_id r = i
                       then \<lparr>inv_id = inv_id r, invoice_no = no, date = dt, itype = ty,
                             customer = cust, items = items_text, total_amount = tot,
                             notes_text = nts\<rparr>
                       else r)
               (invoices d)\<rparr>))"

text \<open>\<^verbatim>\<open>delete_invoice\<close>: \<^verbatim>\<open>DELETE FROM invoices WHERE id=?\<close>; it never raises.\<close>

definition delete_invoice :: "int \<Rightarrow> db \<Rightarrow> db" where
  "delete_invoice i d = d\<lparr>invoices := filter (\<lambda>r. inv_id r \<noteq> i) (invoices d)\<rparr>"

text \<open>
  \<^verbatim>\<open>get_invoice\<close>: \<^verbatim>\<open>SELECT * FROM invoices WHERE id=?\<close> and \<^verbatim>\<open>fetchone()\<close>, which is
  the first row found or Python's \<^verbatim>\<open>None\<close>.
\<close>

definition get_invoice :: "int \<Rightarrow> db \<Rightarrow> invoice option" where
  "get_invoice i d = find (\<lambda>r. inv_id r = i) (invoices d)"

text \<open>
  What the schema promises of a table: \<^verbatim>\<open>PRIMARY KEY\<close> makes the ids distinct,
  \<^verbatim>\<open>UNIQUE\<close> the invoice numbers.
\<close>

definition wf_db :: "db \<Rightarrow> bool" where
  "wf_db d \<longleftrightarrow>
     distinct (map inv_id (invoices d)) \<and> distinct (map invoice_no (invoices d))"

subsection \<open>The invoice counter\<close>

text \<open>
  \<^verbatim>\<open>next_invoice_no\<close> reads the text \<^verbatim>\<open>v\<close> stored under \<^verbatim>\<open>'last_invoice'\<close>, turns it
  into a number with \<^verbatim>\<open>int(...)\<close>, adds one, stores \<^verbatim>\<open>str(last)\<close> and returns
  \<^verbatim>\<open>f"{prefix}-{last:05d}"\<close>. Three functions of Python are involved; they are written out
  for ASCII text.

  \<open>dec\<close> is the decimal numeral of a natural number, \<open>py_str\<close> is \<^verbatim>\<open>str\<close> on an
  \<^verbatim>\<open>int\<close>, and \<open>fmt_05d\<close> is the format \<^verbatim>\<open>05d\<close>: zeros fill the numeral up to five
  characters, of which a minus sign is one, and a longer numeral stays as it is.
\<close>

definition is_digit :: "char \<Rightarrow> bool" where
  "is_digit c \<longleftrightarrow> CHR ''0'' \<le> c \<and> c \<le> CHR ''9''"

definition digit_val :: "char \<Rightarrow> nat" where
  "digit_val c = of_char c - 48"















subsection \<open>Listing\<close>

text \<open>
  SQL's \<^verbatim>\<open>LIKE\<close> as SQLite evaluates it by default: \<^verbatim>\<open>%\<close> in the pattern stands for any
  run of characters, \<^verbatim>\<open>_\<close> for any one character, and every other character for itself,
  where the letters \<^verbatim>\<open>A\<close> to \<^verbatim>\<open>Z\<close> equal their lower-case forms. The statement has no
  \<^verbatim>\<open>ESCAPE\<close> clause, so \<^verbatim>\<open>%\<close> and \<^verbatim>\<open>_\<close> in the text of a filter are wildcards too.
\<close>

definition ascii_lower :: "char \<Rightarrow> char" where
  "ascii_lower c =
     (if CHR ''A'' \<le> c \<and> c \<le> CHR ''Z'' then char_of (of_char c + (32::nat)) else c)"

fun like :: "string \<Rightarrow> string \<Rightarrow> bool" where
  "like [] [] = True"
| "like [] (c # cs) = False"
| "like (p # ps) [] = (p = CHR ''%'' \<and> like ps [])"
| "like (p # ps) (c # cs) =
     (if p = CHR ''%'' then like ps (c # cs) \<or> like (p # ps) cs
      else (p = CHR ''_'' \<or> ascii_lower p = ascii_lower c) \<and> like ps cs)"

text \<open>
  The rows \<^verbatim>\<open>list_invoices\<close> returns are the columns
  \<^verbatim>\<open>id, invoice_no, date, type, customer, total\<close> of a row.
\<close>

type_synonym summary = "int \<times> string \<times> string \<times> string \<times> string \<times> amount"

definition summary_of :: "invoice \<Rightarrow> summary" where
  "summary_of r = (inv_id r, invoice_no r, date r, itype r, customer r, total_amount r)"

text \<open>
  The filters are a dictionary from the names of the filters to text. SQLite's function
  \<^verbatim>\<open>date\<close> is not part of the program: it is the parameter \<open>date_fn\<close> of the model, a
  function from text to a day or to NULL (\<open>None\<close>). The comparisons
  \<^verbatim>\<open>date(date) >= date(?)\<close> and \<^verbatim>\<open>date(date) <= date(?)\<close> compare two texts byte by
  byte, and are NULL, so that the row is left out, when either side is NULL.
\<close>

type_synonym filters = "string \<rightharpoonup> string"

definition sql_ge :: "string option \<Rightarrow> string option \<Rightarrow> bool" where
  "sql_ge a b = (case (a, b) of (Some x, Some y) \<Rightarrow> y \<le> x | _ \<Rightarrow> False)"

definition sql_le :: "string option \<Rightarrow> string option \<Rightarrow> bool" where
  "sql_le a b = (case (a, b) of (Some x, Some y) \<Rightarrow> x \<le> y | _ \<Rightarrow> False)"

text \<open>
  \<^verbatim>\<open>if k in filters and filters[k]\<close>: the condition joins the list when the key is there
  and its text is not empty.
\<close>

definition given ::
  "filters \<Rightarrow> string \<Rightarrow> (string \<Rightarrow> invoice \<Rightarrow> bool) \<Rightarrow> (invoice \<Rightarrow> bool) list" where
  "given f k c = (case f k of None \<Rightarrow> [] | Some v \<Rightarrow> if v \<noteq> [] then [c v] else [])"

definition conds :: "(string \<Rightarrow> string option) \<Rightarrow> filters \<Rightarrow> (invoice \<Rightarrow> bool) list" where
  "conds date_fn f =
     given f ''type'' (\<lambda>v r. itype r = v)
     @ given f ''customer'' (\<lambda>v r. like (''%'' @ v @ ''%'') (customer r))
     @ given f ''invoice_no'' (\<lambda>v r. like (''%'' @ v @ ''%'') (invoice_no r))
     @ given f ''date_from'' (\<lambda>v r. sql_ge (date_fn (date r)) (date_fn v))
     @ given f ''date_to'' (\<lambda>v r. sql_le (date_fn (date r)) (date_fn v))"

text \<open>
  \<^verbatim>\<open>ORDER BY date(date) DESC\<close>: the largest key first, NULL, the least value of SQL's
  order, last. SQL leaves the order of rows with equal keys open; here they keep the
  order of the table.
\<close>

definition order_by_desc :: "('a \<Rightarrow> 'k::linorder) \<Rightarrow> 'a list \<Rightarrow> 'a list" where
  "order_by_desc key rows = rev (sort_key key (rev rows))"

text \<open>
  \<^verbatim>\<open>list_invoices\<close>: \<^verbatim>\<open>filters or {}\<close>, the conditions joined by \<^verbatim>\<open>AND\<close> (none when
  the list is empty), the order, and the six columns.
\<close>

definition list_invoices ::
  "(string \<Rightarrow> string option) \<Rightarrow> filters option \<Rightarrow> db \<Rightarrow> summary list" where
  "list_invoices date_fn filters d =
     (let f = (case filters of None \<Rightarrow> Map.empty | Some m \<Rightarrow> m);
          cs = conds date_fn f;
          rows = filter (\<lambda>r. list_all (\<lambda>c. c r) cs) (invoices d)
      in map summary_of (order_by_desc (\<lambda>r. date_fn (date r)) rows))"

subsection \<open>Export\<close>














subsection \<open>Concrete data\<close>

text \<open>
  For the concrete instances below: \<^verbatim>\<open>date\<close> returns a text \<^verbatim>\<open>YYYY-MM-DD\<close> with a
  month from 01 to 12 and a day from 01 to 28 as it is. \<open>plain_day\<close> is \<^verbatim>\<open>date\<close> on such
  texts, the only ones it is applied to; on the other texts it is NULL, which is not what
  \<^verbatim>\<open>date\<close> returns for all of them.
\<close>

definition plain_day :: "string \<Rightarrow> string option" where
  "plain_day s =
     (case s of
        [y1, y2, y3, y4, h1, m1, m2, h2, d1, d2] \<Rightarrow>
          if list_all is_digit [y1, y2, y3, y4, m1, m2, d1, d2]
             \<and> h1 = CHR ''-'' \<and> h2 = CHR ''-''
             \<and> 1 \<le> 10 * digit_val m1 + digit_val m2 \<and> 10 * digit_val m1 + digit_val m2 \<le> 12
             \<and> 1 \<le> 10 * digit_val d1 + digit_val d2 \<and> 10 * digit_val d1 + digit_val d2 \<le> 28
          then Some s else None
      | _ \<Rightarrow> None)"

text \<open>
  A store with three invoices of the kind \<^verbatim>\<open>insert_sample\<close> creates, on three days.
\<close>

definition sample_db :: db where
  "sample_db =
     \<lparr>invoices =
        [\<lparr>inv_id = 1, invoice_no = ''SAMPLE-00001'', date = ''2024-01-10'', itype = ''Outward'',
          customer = ''Customer 1'', items = ''Item A x1 - 100'' @ [CHR 0x0A] @ ''Item B x2 - 200'',
          total_amount = 300, notes_text = ''Sample invoice created for testing''\<rparr>,
         \<lparr>inv_id = 2, invoice_no = ''SAMPLE-00002'', date = ''2024-02-05'', itype = ''Inward'',
          customer = ''Customer 2'', items = ''Item A x1 - 100'' @ [CHR 0x0A] @ ''Item B x2 - 200'',
          total_amount = 300, notes_text = ''Sample invoice created for testing''\<rparr>,
         \<lparr>inv_id = 3, invoice_no = ''SAMPLE-00003'', date = ''2024-01-20'', itype = ''Outward'',
          customer = ''Customer 3'', items = ''Item A x1 - 100'' @ [CHR 0x0A] @ ''Item B x2 - 200'',
          total_amount = 300, notes_text = ''Sample invoice created for testing''\<rparr>],
      meta = [''last_invoice'' \<mapsto> ''3'']\<rparr>"

subsection \<open>Reading a listed row, and containment\<close>

text \<open>The columns \<^verbatim>\<open>row[2]\<close>, \<^verbatim>\<open>row[3]\<close> and \<^verbatim>\<open>row[4]\<close> of a listed row.\<close>

definition summary_date :: "summary \<Rightarrow> string" where
  "summary_date x = (case x of (i, no, dt, ty, cu, tot) \<Rightarrow> dt)"

definition summary_type :: "summary \<Rightarrow> string" where
  "summary_type x = (case x of (i, no, dt, ty, cu, tot) \<Rightarrow> ty)"

definition summary_customer :: "summary \<Rightarrow> string" where
  "summary_customer x = (case x of (i, no, dt, ty, cu, tot) \<Rightarrow> cu)"

text \<open>Python's \<^verbatim>\<open>s in t\<close> on texts: \<open>s\<close> occurs in \<open>t\<close>, character for character.\<close>

fun contains :: "string \<Rightarrow> string \<Rightarrow> bool" where
  "contains [] s = (s = [])"
| "contains (c # cs) s = (take (length s) (c # cs) = s \<or> contains cs s)"

text \<open>
  The example of the specification: the invoice \<^verbatim>\<open>INV-00001\<close> of 2024-01-10 for the
  customer \<^verbatim>\<open>Acme\<close>, added to a new store.
\<close>

definition acme_db :: db where
  "acme_db = snd (add_invoice ''INV-00001'' ''2024-01-10'' ''Outward'' ''Acme''
                    ''Widget x2 - 50'' 50 [] new_db)"

section \<open>Properties\<close>

subsection \<open>The rowid of a new row is fresh\<close>

lemma fold_max_ge: "(a::int) \<le> fold max xs a"
  by (induction xs arbitrary: a) (auto intro: order_trans [OF max.cobounded2])

lemma fold_max_mem: "x \<in> set xs \<Longrightarrow> (x::int) \<le> fold max xs a"
proof (induction xs arbitrary: a)
  case Nil
  then show ?case by simp
next
  case (Cons y ys)
  show ?case
  proof (cases "x = y")
    case True
    have "x \<le> max y a" using True by simp
    also have "\<dots> \<le> fold max ys (max y a)" by (rule fold_max_ge)
    finally show ?thesis by simp
  next
    case False
    with Cons.prems have "x \<in> set ys" by simp
    then show ?thesis using Cons.IH by simp
  qed
qed

lemma new_rowid_greater: "r \<in> set rows \<Longrightarrow> inv_id r < new_rowid rows"
proof (cases rows)
  case Nil
  then show "r \<in> set rows \<Longrightarrow> ?thesis" by simp
next
  case (Cons r0 rs)
  assume "r \<in> set rows"
  then consider "r = r0" | "inv_id r \<in> set (map inv_id rs)"
    using Cons by auto
  then have "inv_id r \<le> fold max (map inv_id rs) (inv_id r0)"
  proof cases
    case 1
    then show ?thesis by (simp add: fold_max_ge)
  next
    case 2
    then show ?thesis by (rule fold_max_mem)
  qed
  then show ?thesis by (simp add: new_rowid_def Cons)
qed

lemma new_rowid_fresh: "new_rowid rows \<notin> inv_id ` set rows"
  using new_rowid_greater by fastforce

lemma find_append_fresh:
  "\<forall>x \<in> set xs. \<not> P x \<Longrightarrow> P y \<Longrightarrow> find P (xs @ [y]) = Some y"
  by (induction xs) auto

text \<open>
  C1. For every invoice whose number is not stored yet, \<open>add_invoice\<close> succeeds, and
  \<open>get_invoice\<close> with the id it returns yields a row that carries that id and, in every
  other field, exactly the value supplied.
\<close>

theorem add_then_get:
  assumes "\<not> list_ex (\<lambda>r. invoice_no r = no) (invoices d)"
  shows "\<exists>i d'. add_invoice no dt ty cust items_text tot nts d = (Inr i, d')
           \<and> get_invoice i d' =
               Some \<lparr>inv_id = i, invoice_no = no, date = dt, itype = ty, customer = cust,
                     items = items_text, total_amount = tot, notes_text = nts\<rparr>"
proof -
  let ?i = "new_rowid (invoices d)"
  let ?row = "\<lparr>inv_id = ?i, invoice_no = no, date = dt, itype = ty, customer = cust,
                items = items_text, total_amount = tot, notes_text = nts\<rparr>"
  have add: "add_invoice no dt ty cust items_text tot nts d
               = (Inr ?i, d\<lparr>invoices := invoices d @ [?row]\<rparr>)"
    using assms by (simp add: add_invoice_def Let_def)
  have "\<forall>r \<in> set (invoices d). \<not> inv_id r = ?i"
    by (auto dest: new_rowid_greater)
  then have "find (\<lambda>r. inv_id r = ?i) (invoices d @ [?row]) = Some ?row"
    by (rule find_append_fresh) simp
  then have "get_invoice ?i (d\<lparr>invoices := invoices d @ [?row]\<rparr>) = Some ?row"
    by (simp add: get_invoice_def)
  with add show ?thesis by blast
qed

theorem add_then_get_witness:
  "\<not> list_ex (\<lambda>r. invoice_no r = ''INV-00001'') (invoices new_db)
   \<and> (\<exists>i d'. add_invoice ''INV-00001'' ''2024-01-10'' ''Outward'' ''Acme''
                 ''Widget x2 - 50'' 50 [] new_db = (Inr i, d')
          \<and> get_invoice i d' =
                Some \<lparr>inv_id = i, invoice_no = ''INV-00001'', date = ''2024-01-10'',
                      itype = ''Outward'', customer = ''Acme'', items = ''Widget x2 - 50'',
                      total_amount = 50, notes_text = []\<rparr>)"
proof -
  have h: "\<not> list_ex (\<lambda>r. invoice_no r = ''INV-00001'') (invoices new_db)"
    by (simp add: new_db_def create_tables_def)
  show ?thesis
    using h add_then_get [OF h, of "''2024-01-10''" "''Outward''" "''Acme''"
        "''Widget x2 - 50''" 50 "[]"]
    by blast
qed

subsection \<open>Rows and their ids\<close>

lemma find_distinct_id:
  "distinct (map inv_id rows) \<Longrightarrow> r \<in> set rows
     \<Longrightarrow> find (\<lambda>x. inv_id x = inv_id r) rows = Some r"
  by (induction rows) (auto simp: image_iff)

lemma filter_remove1_id:
  "distinct (map inv_id rows) \<Longrightarrow> r \<in> set rows
     \<Longrightarrow> filter (\<lambda>x. inv_id x \<noteq> inv_id r) rows = remove1 r rows"
proof (induction rows)
  case Nil
  then show ?case by simp
next
  case (Cons x xs)
  show ?case
  proof (cases "x = r")
    case True
    have "\<forall>y \<in> set xs. inv_id y \<noteq> inv_id r"
      using Cons.prems(1) True by (auto simp: image_iff)
    then have "filter (\<lambda>y. inv_id y \<noteq> inv_id r) xs = xs"
      by (simp add: filter_id_conv)
    with True show ?thesis by simp
  next
    case False
    with Cons.prems have "r \<in> set xs" by simp
    moreover have "inv_id x \<noteq> inv_id r"
      using Cons.prems(1) \<open>r \<in> set xs\<close> by (auto simp: image_iff)
    ultimately show ?thesis using Cons False by simp
  qed
qed

lemma filter_absent_id:
  "\<not> list_ex (\<lambda>r. inv_id r = i) rows \<Longrightarrow> filter (\<lambda>r. inv_id r \<noteq> i) rows = rows"
  by (simp add: list_ex_iff filter_id_conv)

lemma map_absent_id:
  "\<not> list_ex (\<lambda>r. inv_id r = i) rows
     \<Longrightarrow> map (\<lambda>r. if inv_id r = i then f r else r) rows = rows"
  by (induction rows) (auto simp: list_ex_iff)

lemma find_other_id:
  "j \<noteq> i \<Longrightarrow> find (\<lambda>x. inv_id x = j) (filter (\<lambda>x. inv_id x \<noteq> i) rows)
                 = find (\<lambda>x. inv_id x = j) rows"
  by (induction rows) auto

subsection \<open>The constraints of the schema are kept\<close>

lemma wf_db_new: "wf_db new_db"
  by (simp add: wf_db_def new_db_def create_tables_def)

lemma wf_db_add: "wf_db d \<Longrightarrow> wf_db (snd (add_invoice no dt ty cust it tot nts d))"
  using new_rowid_fresh [of "invoices d"]
  by (auto simp: wf_db_def add_invoice_def Let_def list_ex_iff)

lemma wf_db_delete: "wf_db d \<Longrightarrow> wf_db (delete_invoice i d)"
  by (simp add: wf_db_def delete_invoice_def distinct_map_filter)

lemma distinct_no_update:
  assumes "distinct (map invoice_no rows)"
    and "\<forall>r \<in> set rows. inv_id r \<noteq> i \<longrightarrow> invoice_no r \<noteq> no"
    and "distinct (map inv_id rows)"
    and "\<And>r. invoice_no (f r) = no"
  shows "distinct (map (\<lambda>r. invoice_no (if inv_id r = i then f r else r)) rows)"
  using assms(1-3)
proof (induction rows)
  case Nil
  then show ?case by simp
next
  case (Cons x xs)
  have IH: "distinct (map (\<lambda>r. invoice_no (if inv_id r = i then f r else r)) xs)"
    using Cons by simp
  show ?case
  proof (cases "inv_id x = i")
    case True
    then have "\<forall>r \<in> set xs. inv_id r \<noteq> i"
      using Cons.prems(3) by (auto simp: image_iff)
    then have "no \<notin> (\<lambda>r. invoice_no (if inv_id r = i then f r else r)) ` set xs"
      using Cons.prems(2) by (auto simp: image_iff)
    then show ?thesis
      using IH True assms(4) by simp
  next
    case False
    then have "invoice_no x \<noteq> no" using Cons.prems(2) by simp
    then have "invoice_no x \<notin> (\<lambda>r. invoice_no (if inv_id r = i then f r else r)) ` set xs"
      using Cons.prems(1) assms(4) by (auto simp: image_iff)
    then show ?thesis
      using IH False by simp
  qed
qed

lemma wf_db_update:
  assumes "wf_db d"
  shows "wf_db (snd (update_invoice i no dt ty cust it tot nts d))"
proof (cases "list_ex (\<lambda>r. inv_id r = i) (invoices d)
         \<and> list_ex (\<lambda>r. inv_id r \<noteq> i \<and> invoice_no r = no) (invoices d)")
  case True
  then show ?thesis using assms by (simp add: update_invoice_def)
next
  case False
  show ?thesis
  proof (cases "list_ex (\<lambda>r. inv_id r = i) (invoices d)")
    case True
    with False have "\<forall>r \<in> set (invoices d). inv_id r \<noteq> i \<longrightarrow> invoice_no r \<noteq> no"
      by (auto simp: list_ex_iff)
    then have "distinct (map (\<lambda>r. invoice_no (if inv_id r = i
                       then \<lparr>inv_id = inv_id r, invoice_no = no, date = dt, itype = ty,
                             customer = cust, items = it, total_amount = tot,
                             notes_text = nts\<rparr>
                       else r)) (invoices d))"
      using assms by (intro distinct_no_update) (simp_all add: wf_db_def)
    moreover have "map (\<lambda>r. inv_id (if inv_id r = i
                       then \<lparr>inv_id = inv_id r, invoice_no = no, date = dt, itype = ty,
                             customer = cust, items = it, total_amount = tot,
                             notes_text = nts\<rparr>
                       else r)) (invoices d) = map inv_id (invoices d)"
      by (rule map_cong) auto
    ultimately show ?thesis
      using assms False
      by (simp add: update_invoice_def wf_db_def o_def del: map_eq_conv)
  next
    case False
    then show ?thesis using assms by (simp add: update_invoice_def map_absent_id)
  qed
qed

lemma wf_db_sample: "wf_db sample_db"
  by (simp add: wf_db_def sample_db_def)

subsection \<open>A second invoice with a stored number\<close>

text \<open>
  C3. In a store that satisfies the constraints of the schema and holds a row \<open>r\<close>,
  \<open>add_invoice\<close> with the invoice number of \<open>r\<close> ends in \<open>IntegrityError\<close>, whatever the
  other fields are; the store after the call is the store before it, and \<open>get_invoice\<close>
  with the id of \<open>r\<close> still returns \<open>r\<close>.
\<close>

theorem add_duplicate_rejected:
  assumes "wf_db d" and "r \<in> set (invoices d)"
  shows "add_invoice (invoice_no r) dt ty cust items_text tot nts d = (Inl IntegrityError, d)
         \<and> get_invoice (inv_id r)
              (snd (add_invoice (invoice_no r) dt ty cust items_text tot nts d)) = Some r"
proof -
  have "list_ex (\<lambda>x. invoice_no x = invoice_no r) (invoices d)"
    using assms(2) by (auto simp: list_ex_iff)
  then have add: "add_invoice (invoice_no r) dt ty cust items_text tot nts d
                    = (Inl IntegrityError, d)"
    by (simp add: add_invoice_def)
  have "get_invoice (inv_id r) d = Some r"
    using assms by (simp add: wf_db_def get_invoice_def find_distinct_id)
  with add show ?thesis by simp
qed

theorem add_duplicate_rejected_witness:
  "wf_db sample_db \<and> hd (invoices sample_db) \<in> set (invoices sample_db)
   \<and> add_invoice (invoice_no (hd (invoices sample_db))) ''2024-03-01'' ''Inward'' ''Acme''
        ''Widget x2 - 50'' 50 [] sample_db = (Inl IntegrityError, sample_db)
   \<and> get_invoice (inv_id (hd (invoices sample_db)))
        (snd (add_invoice (invoice_no (hd (invoices sample_db))) ''2024-03-01'' ''Inward''
                ''Acme'' ''Widget x2 - 50'' 50 [] sample_db))
       = Some (hd (invoices sample_db))"
proof -
  have h1: "wf_db sample_db"
    by (simp add: wf_db_def sample_db_def)
  have h2: "hd (invoices sample_db) \<in> set (invoices sample_db)"
    by (simp add: sample_db_def)
  show ?thesis
    using h1 h2 add_duplicate_rejected [OF h1 h2] by blast
qed

subsection \<open>Update and delete with an id that is not stored\<close>

text \<open>
  C7. When no stored row has the id, \<open>update_invoice\<close> returns without an error and
  the store after the call is the store before it: every row, and so the number of rows,
  is unchanged.
\<close>

theorem update_missing_id_noop:
  assumes "\<not> list_ex (\<lambda>r. inv_id r = i) (invoices d)"
  shows "update_invoice i no dt ty cust items_text tot nts d = (Inr (), d)"
  using assms by (simp add: update_invoice_def map_absent_id)

theorem update_missing_id_noop_witness:
  "\<not> list_ex (\<lambda>r. inv_id r = 7) (invoices sample_db)
   \<and> update_invoice 7 ''INV-00009'' ''2024-03-01'' ''Inward'' ''Acme'' ''Widget x2 - 50'' 50 []
        sample_db = (Inr (), sample_db)"
proof -
  have h: "\<not> list_ex (\<lambda>r. inv_id r = 7) (invoices sample_db)"
    by (simp add: sample_db_def)
  show ?thesis
    using h update_missing_id_noop [OF h] by blast
qed

text \<open>
  C8. \<open>delete_invoice\<close> has no error to raise. When no stored row has the id, the store
  after the call is the store before it. When the row \<open>r\<close> of a store that satisfies the
  constraints of the schema has the id, the table after the call is the table before it
  without \<open>r\<close>: it has one row less, the id is no longer found, and every other id
  finds what it found before.
\<close>

theorem delete_invoice_effect:
  "(\<not> list_ex (\<lambda>x. inv_id x = i) (invoices d) \<longrightarrow> delete_invoice i d = d)
   \<and> (wf_db d \<and> r \<in> set (invoices d) \<and> inv_id r = i \<longrightarrow>
        delete_invoice i d = d\<lparr>invoices := remove1 r (invoices d)\<rparr>
        \<and> length (invoices (delete_invoice i d)) + 1 = length (invoices d)
        \<and> get_invoice i (delete_invoice i d) = None
        \<and> (\<forall>j. j \<noteq> i \<longrightarrow> get_invoice j (delete_invoice i d) = get_invoice j d))"
proof (intro conjI impI)
  assume "\<not> list_ex (\<lambda>x. inv_id x = i) (invoices d)"
  then show "delete_invoice i d = d"
    by (simp add: delete_invoice_def filter_absent_id)
next
  assume a: "wf_db d \<and> r \<in> set (invoices d) \<and> inv_id r = i"
  then have eq: "filter (\<lambda>x. inv_id x \<noteq> i) (invoices d) = remove1 r (invoices d)"
    using filter_remove1_id [of "invoices d" r] by (auto simp: wf_db_def)
  then show "delete_invoice i d = d\<lparr>invoices := remove1 r (invoices d)\<rparr>"
    by (simp add: delete_invoice_def)
  show "length (invoices (delete_invoice i d)) + 1 = length (invoices d)"
  proof -
    have "0 < length (invoices d)"
      using a by (auto intro: length_pos_if_in_set)
    then show ?thesis
      using a eq by (simp add: delete_invoice_def length_remove1)
  qed
  show "get_invoice i (delete_invoice i d) = None"
    by (simp add: get_invoice_def delete_invoice_def find_None_iff)
  show "\<forall>j. j \<noteq> i \<longrightarrow> get_invoice j (delete_invoice i d) = get_invoice j d"
    by (simp add: get_invoice_def delete_invoice_def find_other_id)
qed

theorem delete_invoice_effect_witness:
  "\<not> list_ex (\<lambda>x. inv_id x = 7) (invoices sample_db)
   \<and> delete_invoice 7 sample_db = sample_db
   \<and> wf_db sample_db
   \<and> hd (invoices sample_db) \<in> set (invoices sample_db)
   \<and> inv_id (hd (invoices sample_db)) = 1
   \<and> delete_invoice 1 sample_db
        = sample_db\<lparr>invoices := remove1 (hd (invoices sample_db)) (invoices sample_db)\<rparr>
   \<and> length (invoices (delete_invoice 1 sample_db)) + 1 = length (invoices sample_db)
   \<and> get_invoice 1 (delete_invoice 1 sample_db) = None
   \<and> get_invoice 2 (delete_invoice 1 sample_db) = get_invoice 2 sample_db"
proof -
  have h0: "\<not> list_ex (\<lambda>x. inv_id x = 7) (invoices sample_db)"
    by (simp add: sample_db_def)
  have h1: "wf_db sample_db \<and> hd (invoices sample_db) \<in> set (invoices sample_db)
              \<and> inv_id (hd (invoices sample_db)) = 1"
    by (simp add: wf_db_def sample_db_def)
  have h2: "(2::int) \<noteq> 1" by simp
  show ?thesis
    using h0 h1 h2 delete_invoice_effect [of 7 sample_db]
      delete_invoice_effect [of 1 sample_db "hd (invoices sample_db)"]
    by blast
qed

subsection \<open>The order and the contents of a listing\<close>

lemma summary_of_fields [simp]:
  "summary_date (summary_of r) = date r"
  "summary_type (summary_of r) = itype r"
  "summary_customer (summary_of r) = customer r"
  by (simp_all add: summary_of_def summary_date_def summary_type_def summary_customer_def)

lemma set_order_by_desc [simp]: "set (order_by_desc k xs) = set xs"
  by (simp add: order_by_desc_def)

lemma mset_order_by_desc [simp]: "mset (order_by_desc k xs) = mset xs"
  by (simp add: order_by_desc_def)


lemma mset_list_invoices:
  "mset (list_invoices date_fn (Some f) d)
     = mset (map summary_of (filter (\<lambda>r. list_all (\<lambda>c. c r) (conds date_fn f)) (invoices d)))"
  by (simp add: list_invoices_def Let_def)

lemma set_list_invoices:
  "set (list_invoices date_fn (Some f) d)
     = summary_of ` {r \<in> set (invoices d). list_all (\<lambda>c. c r) (conds date_fn f)}"
  by (simp add: list_invoices_def Let_def)

lemma conds_empty [simp]: "conds date_fn Map.empty = []"
  by (simp add: conds_def given_def)


lemma given_mem: "f k = Some v \<Longrightarrow> v \<noteq> [] \<Longrightarrow> given f k c = [c v]"
  by (simp add: given_def)

lemma list_invoices_subset:
  "set (list_invoices date_fn filters d) \<subseteq> summary_of ` set (invoices d)"
  by (auto simp: list_invoices_def Let_def)

lemma list_invoices_cond:
  assumes "c \<in> set (conds date_fn f)" and "x \<in> set (list_invoices date_fn (Some f) d)"
  shows "\<exists>r \<in> set (invoices d). x = summary_of r \<and> c r"
  using assms by (auto simp: set_list_invoices list_all_iff)

lemma conds_customer_only:
  "s \<noteq> [] \<Longrightarrow> conds date_fn [''customer'' \<mapsto> s]
                   = [\<lambda>r. like (''%'' @ s @ ''%'') (customer r)]"
  by (simp add: conds_def given_def)





text \<open>
  C5. With both bounds given, every listed row has a date that \<^verbatim>\<open>date\<close> can read, and
  its day lies between the day of \<^verbatim>\<open>date_from\<close> and the day of \<^verbatim>\<open>date_to\<close>, both
  included. When the day of \<^verbatim>\<open>date_from\<close> is after the day of \<^verbatim>\<open>date_to\<close> (or one of
  the two cannot be read), the listing is empty. Where \<^verbatim>\<open>date\<close> returns the two bounds and
  the stored dates as they are, this is the order of the texts themselves:
  \<open>date_from \<le> date \<le> date_to\<close> for every listed row, and an empty listing for
  \<open>date_to < date_from\<close>.
\<close>

theorem list_date_range:
  assumes "f ''date_from'' = Some a" and "a \<noteq> []" and "f ''date_to'' = Some b" and "b \<noteq> []"
  shows "(\<forall>x \<in> set (list_invoices date_fn (Some f) d).
            \<exists>lo day hi. date_fn a = Some lo \<and> date_fn (summary_date x) = Some day
               \<and> date_fn b = Some hi \<and> lo \<le> day \<and> day \<le> hi)
         \<and> (\<not> sql_le (date_fn a) (date_fn b) \<longrightarrow> list_invoices date_fn (Some f) d = [])
         \<and> (date_fn a = Some a \<and> date_fn b = Some b
              \<and> (\<forall>r \<in> set (invoices d). date_fn (date r) = Some (date r)) \<longrightarrow>
              (\<forall>x \<in> set (list_invoices date_fn (Some f) d).
                 a \<le> summary_date x \<and> summary_date x \<le> b)
              \<and> (b < a \<longrightarrow> list_invoices date_fn (Some f) d = []))"
proof -
  let ?res = "list_invoices date_fn (Some f) d"
  have from_c: "(\<lambda>r. sql_ge (date_fn (date r)) (date_fn a)) \<in> set (conds date_fn f)"
    using assms by (simp add: conds_def given_mem)
  have to_c: "(\<lambda>r. sql_le (date_fn (date r)) (date_fn b)) \<in> set (conds date_fn f)"
    using assms by (simp add: conds_def given_mem)
  have within: "\<exists>lo day hi. date_fn a = Some lo \<and> date_fn (summary_date x) = Some day
               \<and> date_fn b = Some hi \<and> lo \<le> day \<and> day \<le> hi" if "x \<in> set ?res" for x
  proof -
    from list_invoices_cond [OF from_c that] list_invoices_cond [OF to_c that]
    obtain r where "x = summary_of r" "sql_ge (date_fn (date r)) (date_fn a)"
      "sql_le (date_fn (date r)) (date_fn b)"
      by (auto simp: summary_of_def)
    then show ?thesis
      by (auto simp: sql_ge_def sql_le_def split: option.splits)
  qed
  have empty: "?res = []" if "\<not> sql_le (date_fn a) (date_fn b)"
  proof (rule ccontr)
    assume "?res \<noteq> []"
    then have "last ?res \<in> set ?res" by (rule last_in_set)
    then obtain x where "x \<in> set ?res" ..
    from within [OF this] that show False
      by (auto simp: sql_le_def)
  qed
  have plain: "(\<forall>x \<in> set ?res. a \<le> summary_date x \<and> summary_date x \<le> b) \<and> (b < a \<longrightarrow> ?res = [])"
    if h: "date_fn a = Some a \<and> date_fn b = Some b
              \<and> (\<forall>r \<in> set (invoices d). date_fn (date r) = Some (date r))"
  proof (intro conjI ballI impI)
    fix x assume x: "x \<in> set ?res"
    then obtain r where "r \<in> set (invoices d)" "x = summary_of r"
      using list_invoices_subset [of date_fn "Some f" d] by auto
    then have "date_fn (summary_date x) = Some (summary_date x)" using h by simp
    with within [OF x] h show "a \<le> summary_date x" "summary_date x \<le> b" by auto
  next
    assume "b < a"
    then have "\<not> sql_le (date_fn a) (date_fn b)" using h by (simp add: sql_le_def)
    then show "?res = []" by (rule empty)
  qed
  have c1: "\<forall>x \<in> set ?res.
            \<exists>lo day hi. date_fn a = Some lo \<and> date_fn (summary_date x) = Some day
               \<and> date_fn b = Some hi \<and> lo \<le> day \<and> day \<le> hi"
    using within by blast
  have c2: "\<not> sql_le (date_fn a) (date_fn b) \<longrightarrow> ?res = []"
    using empty by blast
  have c3: "date_fn a = Some a \<and> date_fn b = Some b
              \<and> (\<forall>r \<in> set (invoices d). date_fn (date r) = Some (date r)) \<longrightarrow>
              (\<forall>x \<in> set ?res. a \<le> summary_date x \<and> summary_date x \<le> b)
              \<and> (b < a \<longrightarrow> ?res = [])"
    using plain by blast
  from c1 c2 c3 show ?thesis by (intro conjI)
qed

theorem list_date_range_witness:
  "[''date_from'' \<mapsto> ''2024-01-15'', ''date_to'' \<mapsto> ''2024-02-05''] ''date_from''
       = Some ''2024-01-15''
   \<and> ''2024-01-15'' \<noteq> []
   \<and> [''date_from'' \<mapsto> ''2024-01-15'', ''date_to'' \<mapsto> ''2024-02-05''] ''date_to''
       = Some ''2024-02-05''
   \<and> ''2024-02-05'' \<noteq> []
   \<and> plain_day ''2024-01-15'' = Some ''2024-01-15''
   \<and> plain_day ''2024-02-05'' = Some ''2024-02-05''
   \<and> list_all (\<lambda>r. plain_day (date r) = Some (date r)) (invoices sample_db)
   \<and> list_all (\<lambda>x. ''2024-01-15'' \<le> summary_date x \<and> summary_date x \<le> ''2024-02-05'')
        (list_invoices plain_day
           (Some [''date_from'' \<mapsto> ''2024-01-15'', ''date_to'' \<mapsto> ''2024-02-05'']) sample_db)
   \<and> [''date_from'' \<mapsto> ''2024-02-15'', ''date_to'' \<mapsto> ''2024-01-05''] ''date_from''
       = Some ''2024-02-15''
   \<and> ''2024-02-15'' \<noteq> []
   \<and> [''date_from'' \<mapsto> ''2024-02-15'', ''date_to'' \<mapsto> ''2024-01-05''] ''date_to''
       = Some ''2024-01-05''
   \<and> ''2024-01-05'' \<noteq> []
   \<and> \<not> sql_le (plain_day ''2024-02-15'') (plain_day ''2024-01-05'')
   \<and> list_invoices plain_day
        (Some [''date_from'' \<mapsto> ''2024-02-15'', ''date_to'' \<mapsto> ''2024-01-05'']) sample_db = []"
proof -
  let ?f = "[''date_from'' \<mapsto> ''2024-01-15'', ''date_to'' \<mapsto> ''2024-02-05'']"
  let ?g = "[''date_from'' \<mapsto> ''2024-02-15'', ''date_to'' \<mapsto> ''2024-01-05'']"
  have f1: "?f ''date_from'' = Some ''2024-01-15''" and f2: "''2024-01-15'' \<noteq> []"
    and f3: "?f ''date_to'' = Some ''2024-02-05''" and f4: "''2024-02-05'' \<noteq> []"
    by simp_all
  have g1: "?g ''date_from'' = Some ''2024-02-15''" and g2: "''2024-02-15'' \<noteq> []"
    and g3: "?g ''date_to'' = Some ''2024-01-05''" and g4: "''2024-01-05'' \<noteq> []"
    by simp_all
  have p1: "plain_day ''2024-01-15'' = Some ''2024-01-15''" by code_simp
  have p2: "plain_day ''2024-02-05'' = Some ''2024-02-05''" by code_simp
  have p3: "list_all (\<lambda>r. plain_day (date r) = Some (date r)) (invoices sample_db)"
    by code_simp
  then have p3': "\<forall>r \<in> set (invoices sample_db). plain_day (date r) = Some (date r)"
    by (simp add: list_all_iff)
  have q: "\<not> sql_le (plain_day ''2024-02-15'') (plain_day ''2024-01-05'')"
    by code_simp
  have within: "list_all (\<lambda>x. ''2024-01-15'' \<le> summary_date x \<and> summary_date x \<le> ''2024-02-05'')
        (list_invoices plain_day (Some ?f) sample_db)"
    using p1 p2 p3' list_date_range [OF f1 f2 f3 f4, of plain_day sample_db]
    unfolding list_all_iff by blast
  have none: "list_invoices plain_day (Some ?g) sample_db = []"
    using q list_date_range [OF g1 g2 g3 g4, of plain_day sample_db] by blast
  from f1 f2 f3 f4 g1 g2 g3 g4 p1 p2 p3 q within none show ?thesis by blast
qed

subsection \<open>What \<^verbatim>\<open>LIKE\<close> matches\<close>

lemma like_percent_iff: "like (CHR ''%'' # p) t \<longleftrightarrow> (\<exists>u v. t = u @ v \<and> like p v)"
proof (induction t)
  case Nil
  then show ?case by simp
next
  case (Cons c cs)
  show ?case
  proof
    assume "like (CHR ''%'' # p) (c # cs)"
    then consider "like p (c # cs)" | "like (CHR ''%'' # p) cs" by auto
    then show "\<exists>u v. c # cs = u @ v \<and> like p v"
    proof cases
      case 1
      then have "c # cs = [] @ (c # cs) \<and> like p (c # cs)" by simp
      then show ?thesis by blast
    next
      case 2
      then obtain u v where "cs = u @ v" "like p v" using Cons.IH by blast
      then have "c # cs = (c # u) @ v \<and> like p v" by simp
      then show ?thesis by blast
    qed
  next
    assume "\<exists>u v. c # cs = u @ v \<and> like p v"
    then obtain u v where uv: "c # cs = u @ v" "like p v" by blast
    show "like (CHR ''%'' # p) (c # cs)"
    proof (cases u)
      case Nil
      with uv have "like p (c # cs)" by simp
      then show ?thesis by simp
    next
      case (Cons a u')
      with uv have "cs = u' @ v" by simp
      with uv(2) have "like (CHR ''%'' # p) cs" using Cons.IH by blast
      then show ?thesis by simp
    qed
  qed
qed

lemma like_percent_all: "like ''%'' t"
proof -
  have "t = t @ [] \<and> like [] []" by simp
  then show ?thesis unfolding like_percent_iff by blast
qed

lemma like_same_prefix: "like q v \<Longrightarrow> like (s @ q) (s @ v)"
proof (induction s)
  case Nil
  then show ?case by simp
next
  case (Cons c s)
  then have "like (s @ q) (s @ v)" by simp
  moreover from this have "like (CHR ''%'' # s @ q) (s @ v)"
    unfolding like_percent_iff by (metis append_Nil)
  ultimately show ?case by simp
qed

lemma contains_iff: "contains t s \<longleftrightarrow> (\<exists>u v. t = u @ s @ v)"
proof (induction t)
  case Nil
  then show ?case by simp
next
  case (Cons c cs)
  have "take (length s) (c # cs) = s \<longleftrightarrow> (\<exists>v. c # cs = s @ v)"
    by (metis append_eq_conv_conj append_take_drop_id)
  moreover have "(\<exists>u v. c # cs = u @ s @ v) \<longleftrightarrow> (\<exists>v. c # cs = s @ v) \<or> (\<exists>u v. cs = u @ s @ v)"
  proof
    assume "\<exists>u v. c # cs = u @ s @ v"
    then obtain u v where uv: "c # cs = u @ s @ v" by blast
    show "(\<exists>v. c # cs = s @ v) \<or> (\<exists>u v. cs = u @ s @ v)"
    proof (cases u)
      case Nil
      with uv show ?thesis by auto
    next
      case (Cons a u')
      with uv have "cs = u' @ s @ v" by simp
      then show ?thesis by blast
    qed
  next
    assume "(\<exists>v. c # cs = s @ v) \<or> (\<exists>u v. cs = u @ s @ v)"
    then show "\<exists>u v. c # cs = u @ s @ v"
    proof
      assume "\<exists>v. c # cs = s @ v"
      then obtain v where "c # cs = [] @ s @ v" by auto
      then show ?thesis by blast
    next
      assume "\<exists>u v. cs = u @ s @ v"
      then obtain u v where "c # cs = (c # u) @ s @ v" by auto
      then show ?thesis by blast
    qed
  qed
  ultimately show ?case using Cons.IH by simp
qed

lemma contains_like: "contains t s \<Longrightarrow> like (''%'' @ s @ ''%'') t"
proof -
  assume "contains t s"
  then obtain u v where t: "t = u @ s @ v" using contains_iff by blast
  have "like (s @ ''%'') (s @ v)"
    by (rule like_same_prefix) (rule like_percent_all)
  then show ?thesis
    using t by (auto simp: like_percent_iff)
qed

lemma like_plain_prefix:
  assumes "CHR ''%'' \<notin> set s" and "CHR ''_'' \<notin> set s"
  shows "like (s @ q) t \<longleftrightarrow>
           (\<exists>m v. t = m @ v \<and> map ascii_lower m = map ascii_lower s \<and> like q v)"
  using assms
proof (induction s arbitrary: t)
  case Nil
  then show ?case by simp
next
  case (Cons c s)
  show ?case
  proof (cases t)
    case Nil
    with Cons.prems show ?thesis by auto
  next
    case (Cons a t')
    have IH: "like (s @ q) t' \<longleftrightarrow>
           (\<exists>m v. t' = m @ v \<and> map ascii_lower m = map ascii_lower s \<and> like q v)"
      using Cons.IH Cons.prems by simp
    have "like ((c # s) @ q) t \<longleftrightarrow> ascii_lower c = ascii_lower a \<and> like (s @ q) t'"
      using Cons.prems Cons by auto
    also have "\<dots> \<longleftrightarrow> (\<exists>m v. t = m @ v \<and> map ascii_lower m = map ascii_lower (c # s) \<and> like q v)"
    proof
      assume "ascii_lower c = ascii_lower a \<and> like (s @ q) t'"
      then obtain m v where "ascii_lower c = ascii_lower a" "t' = m @ v"
        "map ascii_lower m = map ascii_lower s" "like q v"
        using IH by blast
      then have "t = (a # m) @ v \<and> map ascii_lower (a # m) = map ascii_lower (c # s) \<and> like q v"
        using Cons by simp
      then show "\<exists>m v. t = m @ v \<and> map ascii_lower m = map ascii_lower (c # s) \<and> like q v"
        by blast
    next
      assume "\<exists>m v. t = m @ v \<and> map ascii_lower m = map ascii_lower (c # s) \<and> like q v"
      then obtain m v where mv: "t = m @ v" "map ascii_lower m = map ascii_lower (c # s)" "like q v"
        by blast
      then obtain b m' where m: "m = b # m'" by (cases m) auto
      with mv Cons have "a = b" "t' = m' @ v" "ascii_lower b = ascii_lower c"
        "map ascii_lower m' = map ascii_lower s" by auto
      then show "ascii_lower c = ascii_lower a \<and> like (s @ q) t'"
        using IH mv(3) by auto
    qed
    finally show ?thesis .
  qed
qed

lemma like_plain_iff:
  assumes "CHR ''%'' \<notin> set s" and "CHR ''_'' \<notin> set s"
  shows "like (''%'' @ s @ ''%'') t \<longleftrightarrow> contains (map ascii_lower t) (map ascii_lower s)"
proof -
  have "like (''%'' @ s @ ''%'') t \<longleftrightarrow> (\<exists>u w. t = u @ w \<and> like (s @ ''%'') w)"
    by (simp add: like_percent_iff)
  also have "\<dots> \<longleftrightarrow> (\<exists>u m v. t = u @ m @ v \<and> map ascii_lower m = map ascii_lower s)"
    by (auto simp: like_plain_prefix [OF assms] like_percent_all)
  also have "\<dots> \<longleftrightarrow> (\<exists>u' v'. map ascii_lower t = u' @ map ascii_lower s @ v')"
  proof
    assume "\<exists>u m v. t = u @ m @ v \<and> map ascii_lower m = map ascii_lower s"
    then obtain u m v where "t = u @ m @ v" "map ascii_lower m = map ascii_lower s" by blast
    then have "map ascii_lower t = map ascii_lower u @ map ascii_lower s @ map ascii_lower v"
      by simp
    then show "\<exists>u' v'. map ascii_lower t = u' @ map ascii_lower s @ v'" by blast
  next
    assume "\<exists>u' v'. map ascii_lower t = u' @ map ascii_lower s @ v'"
    then obtain u' v' where "map ascii_lower t = u' @ map ascii_lower s @ v'" by blast
    then obtain u w where "t = u @ w" "map ascii_lower s @ v' = map ascii_lower w"
      unfolding map_eq_append_conv by blast
    then obtain m v where "t = u @ m @ v" "map ascii_lower m = map ascii_lower s"
      unfolding append_eq_map_conv by metis
    then show "\<exists>u m v. t = u @ m @ v \<and> map ascii_lower m = map ascii_lower s" by blast
  qed
  finally show ?thesis by (simp add: contains_iff)
qed

text \<open>
  C4 does not hold as it stands. The filter \<^verbatim>\<open>Ac_e\<close> lists the invoice of the customer
  \<^verbatim>\<open>Acme\<close>, whose name does not contain the text \<^verbatim>\<open>Ac_e\<close>: the underscore stands
  for any character. So does the filter \<^verbatim>\<open>acme\<close>: the case of a letter does not count.
\<close>

theorem customer_filter_counterexample:
  "list_invoices plain_day (Some [''customer'' \<mapsto> ''Ac_e'']) acme_db
     = [(1, ''INV-00001'', ''2024-01-10'', ''Outward'', ''Acme'', 50)]
   \<and> \<not> contains ''Acme'' ''Ac_e''
   \<and> list_invoices plain_day (Some [''customer'' \<mapsto> ''acme'']) acme_db
     = [(1, ''INV-00001'', ''2024-01-10'', ''Outward'', ''Acme'', 50)]
   \<and> \<not> contains ''Acme'' ''acme''"
  by code_simp

text \<open>
  C4, amended. With a type filter \<open>v\<close>, every listed row has exactly the type \<open>v\<close>. With
  a customer filter \<open>s\<close>, every listed row has a customer that matches the pattern
  \<^verbatim>\<open>%s%\<close> of \<^verbatim>\<open>LIKE\<close>, and with no other filter the listing consists of exactly the
  stored rows whose customer matches it. A customer that contains \<open>s\<close> matches; and when
  \<open>s\<close> has neither \<^verbatim>\<open>%\<close> nor \<^verbatim>\<open>_\<close>, a customer matches exactly when it contains \<open>s\<close>
  up to the case of the letters \<^verbatim>\<open>A\<close> to \<^verbatim>\<open>Z\<close>.
\<close>

theorem list_type_and_customer:
  "(f ''type'' = Some v \<and> v \<noteq> [] \<longrightarrow>
      (\<forall>x \<in> set (list_invoices date_fn (Some f) d). summary_type x = v))
   \<and> (f ''customer'' = Some s \<and> s \<noteq> [] \<longrightarrow>
        (\<forall>x \<in> set (list_invoices date_fn (Some f) d).
           like (''%'' @ s @ ''%'') (summary_customer x)))
   \<and> (s \<noteq> [] \<longrightarrow>
        mset (list_invoices date_fn (Some [''customer'' \<mapsto> s]) d)
          = mset (map summary_of
                    (filter (\<lambda>r. like (''%'' @ s @ ''%'') (customer r)) (invoices d))))
   \<and> (contains t s \<longrightarrow> like (''%'' @ s @ ''%'') t)
   \<and> (CHR ''%'' \<notin> set s \<and> CHR ''_'' \<notin> set s \<longrightarrow>
        like (''%'' @ s @ ''%'') t = contains (map ascii_lower t) (map ascii_lower s))"
proof (intro conjI impI ballI)
  fix x
  assume a: "f ''type'' = Some v \<and> v \<noteq> []"
    and x: "x \<in> set (list_invoices date_fn (Some f) d)"
  from a have "(\<lambda>r. itype r = v) \<in> set (conds date_fn f)"
    by (simp add: conds_def given_mem)
  from list_invoices_cond [OF this x] show "summary_type x = v" by auto
next
  fix x
  assume a: "f ''customer'' = Some s \<and> s \<noteq> []"
    and x: "x \<in> set (list_invoices date_fn (Some f) d)"
  from a have "(\<lambda>r. like (''%'' @ s @ ''%'') (customer r)) \<in> set (conds date_fn f)"
    by (simp add: conds_def given_mem)
  from list_invoices_cond [OF this x]
  show "like (''%'' @ s @ ''%'') (summary_customer x)" by auto
next
  assume "s \<noteq> []"
  then show "mset (list_invoices date_fn (Some [''customer'' \<mapsto> s]) d)
          = mset (map summary_of
                    (filter (\<lambda>r. like (''%'' @ s @ ''%'') (customer r)) (invoices d)))"
    by (simp add: mset_list_invoices conds_customer_only)
next
  assume "contains t s"
  then show "like (''%'' @ s @ ''%'') t" by (rule contains_like)
next
  assume "CHR ''%'' \<notin> set s \<and> CHR ''_'' \<notin> set s"
  then show "like (''%'' @ s @ ''%'') t = contains (map ascii_lower t) (map ascii_lower s)"
    using like_plain_iff [of s t] by simp
qed

theorem list_type_and_customer_witness:
  "[''type'' \<mapsto> ''Outward'', ''customer'' \<mapsto> ''ustomer''] ''type'' = Some ''Outward''
   \<and> ''Outward'' \<noteq> []
   \<and> list_all (\<lambda>x. summary_type x = ''Outward'')
        (list_invoices plain_day
           (Some [''type'' \<mapsto> ''Outward'', ''customer'' \<mapsto> ''ustomer'']) sample_db)
   \<and> [''type'' \<mapsto> ''Outward'', ''customer'' \<mapsto> ''ustomer''] ''customer'' = Some ''ustomer''
   \<and> ''ustomer'' \<noteq> []
   \<and> list_all (\<lambda>x. like (''%'' @ ''ustomer'' @ ''%'') (summary_customer x))
        (list_invoices plain_day
           (Some [''type'' \<mapsto> ''Outward'', ''customer'' \<mapsto> ''ustomer'']) sample_db)
   \<and> mset (list_invoices plain_day (Some [''customer'' \<mapsto> ''ustomer'']) sample_db)
        = mset (map summary_of
                  (filter (\<lambda>r. like (''%'' @ ''ustomer'' @ ''%'') (customer r))
                     (invoices sample_db)))
   \<and> contains ''Customer 1'' ''ustomer''
   \<and> like (''%'' @ ''ustomer'' @ ''%'') ''Customer 1''
   \<and> CHR ''%'' \<notin> set ''ustomer'' \<and> CHR ''_'' \<notin> set ''ustomer''
   \<and> like (''%'' @ ''ustomer'' @ ''%'') ''Customer 1''
        = contains (map ascii_lower ''Customer 1'') (map ascii_lower ''ustomer'')"
proof -
  let ?f = "[''type'' \<mapsto> ''Outward'', ''customer'' \<mapsto> ''ustomer'']"
  have h1: "?f ''type'' = Some ''Outward'' \<and> ''Outward'' \<noteq> []" by simp
  have h2: "?f ''customer'' = Some ''ustomer'' \<and> ''ustomer'' \<noteq> []" by simp
  have h3: "''ustomer'' \<noteq> []" by simp
  have h4: "contains ''Customer 1'' ''ustomer''" by code_simp
  have h5: "CHR ''%'' \<notin> set ''ustomer'' \<and> CHR ''_'' \<notin> set ''ustomer''" by simp
  note inst = list_type_and_customer [where f = ?f and v = "''Outward''" and s = "''ustomer''"
        and date_fn = plain_day and d = sample_db and t = "''Customer 1''"]
  show ?thesis
    unfolding list_all_iff
    using h1 h2 h3 h4 h5 inst
    by blast
qed

subsection \<open>Numerals, and the numbers the counter gives out\<close>




lemma zero_digit [simp]: "is_digit CHR ''0''" "digit_val CHR ''0'' = 0"
  by (simp_all add: is_digit_def digit_val_def)


















subsection \<open>Writing rows and reading them again\<close>














end
